theory Spec2Isabelle
  imports Complex_Main "HOL-Library.Multiset"
begin

section \<open>The feature-interpretation pipeline of \<open>shared/interp.py\<close>\<close>

text \<open>
  The theory embeds \<open>run_interp_pipeline\<close>. Activations and percentages are finite
  floating-point numbers in the program and real numbers here. The progress bars of
  \<open>tqdm\<close> write to the error stream and are left out; \<open>print\<close> appends a line to
  \<open>stdout\<close>.
\<close>

subsection \<open>Exceptions and Python values\<close>

datatype exn_class = ValueError | IndexError | ZeroDivisionError | TypeError | KeyError
  | OtherException

text \<open>An instance of Python's \<open>Exception\<close>: its class and the text \<open>str(e)\<close> gives.\<close>

datatype exn = Raise exn_class string

fun exn_str :: "exn \<Rightarrow> string" where
  "exn_str (Raise c msg) = msg"

datatype pyval = PyNone | PyStr string | PyNum real | PyList "pyval list"

type_synonym pydict = "string \<rightharpoonup> pyval"

text \<open>\<open>d[k]\<close> on a dictionary; a missing key raises \<open>KeyError\<close>, whose text is the
  key in quotes.\<close>

definition subscript :: "pydict \<Rightarrow> string \<Rightarrow> exn + pyval" where
  "subscript d k =
     (case d k of
        None \<Rightarrow> Inl (Raise KeyError (CHR 0x27 # k @ [CHR 0x27]))
      | Some v \<Rightarrow> Inr v)"

text \<open>\<open>abs(a - b)\<close>: defined on numbers, a \<open>TypeError\<close> on anything else.\<close>

fun abs_diff :: "pyval \<Rightarrow> pyval \<Rightarrow> exn + real" where
  "abs_diff (PyNum a) (PyNum b) = Inr \<bar>a - b\<bar>"
| "abs_diff a b = Inl (Raise TypeError ''unsupported operand type(s) for -'')"

subsection \<open>Data model\<close>

text \<open>
  Modelled from the spec: the classes \<open>FeatureSample\<close> and \<open>Feature\<close> of
  \<open>shared/features.py\<close> are not among the sources. Their fields are those the spec's data
  model lists and the pipeline fills in; \<open>label\<close>, \<open>attributes\<close> and \<open>reasoning\<close> hold
  what the service returned. \<open>text_of\<close> is the field \<open>text\<close>.
\<close>

record FeatureSample =
  text_of :: string
  act :: real

record Feature =
  index :: nat
  label :: pyval
  attributes :: pyval
  reasoning :: pyval
  confidence :: real
  density :: real
  high_act_samples :: "FeatureSample list"
  low_act_samples :: "FeatureSample list"

text \<open>The model is a parameter of the pipeline: \<open>forward\<close> returns the reconstruction
  and the sparse code of an embedding.\<close>

record SparseAutoencoder =
  forward :: "real list \<Rightarrow> real list \<times> real list"

text \<open>
  The interpretation service (\<open>OpenAIClient\<close> of \<open>shared/ai.py\<close>) is a parameter of the
  pipeline as well. Its answers may change from call to call, so every call
  takes the service's state and returns the next one; a call either raises or returns a
  dictionary.
\<close>

record 's OpenAIClient =
  get_interpretation ::
    "'s \<Rightarrow> FeatureSample list \<Rightarrow> FeatureSample list \<Rightarrow> (exn + pydict) \<times> 's"
  score_interpretation ::
    "'s \<Rightarrow> FeatureSample list \<Rightarrow> pyval \<Rightarrow> (exn + pydict) \<times> 's"

subsection \<open>The random source\<close>

text \<open>
  The global generator of \<open>numpy.random\<close> is a stream of raw draws, consumed from the
  front. \<open>random_interval g m\<close> is a draw in \<open>0..m\<close>.
\<close>

type_synonym rng = "nat \<Rightarrow> nat"

definition random_interval :: "rng \<Rightarrow> nat \<Rightarrow> nat \<times> rng" where
  "random_interval g m = (g 0 mod Suc m, \<lambda>k. g (Suc k))"

text \<open>\<open>shuffle\<close>: for \<open>i\<close> from \<open>n - 1\<close> down to \<open>1\<close>, swap \<open>x[i]\<close> with \<open>x[j]\<close>
  for a draw \<open>j\<close> in \<open>0..i\<close>.\<close>

fun shuffle_down :: "nat \<Rightarrow> 'a list \<Rightarrow> rng \<Rightarrow> 'a list \<times> rng" where
  "shuffle_down 0 xs g = (xs, g)"
| "shuffle_down (Suc k) xs g =
     (case random_interval g (Suc k) of
        (j, g') \<Rightarrow> shuffle_down k (xs[Suc k := xs ! j, j := xs ! Suc k]) g')"

definition shuffle :: "'a list \<Rightarrow> rng \<Rightarrow> 'a list \<times> rng" where
  "shuffle xs g = shuffle_down (length xs - 1) xs g"

definition permutation :: "nat \<Rightarrow> rng \<Rightarrow> nat list \<times> rng" where
  "permutation n g = shuffle [0..<n] g"

text \<open>
  \<open>np.random.choice(a, size, replace=False)\<close> on a list: the entries of \<open>a\<close> at the
  first \<open>size\<close> positions of a random permutation of its indices; a \<open>ValueError\<close>
  when \<open>a\<close> is empty or shorter than \<open>size\<close>.
\<close>

definition random_choice :: "'a list \<Rightarrow> nat \<Rightarrow> rng \<Rightarrow> exn + ('a list \<times> rng)" where
  "random_choice a sz g =
     (if length a = 0 \<and> sz \<noteq> 0 then
        Inl (Raise ValueError ''a cannot be empty unless no samples are taken'')
      else if length a < sz then
        Inl (Raise ValueError
          ''Cannot take a larger sample than population when replace is False'')
      else
        (case permutation (length a) g of
           (idx, g') \<Rightarrow> Inr (map (\<lambda>i. a ! i) (take sz idx), g')))"

subsection \<open>The feature registry\<close>

type_synonym registry = "real list list"

definition np_zeros :: "int \<Rightarrow> nat \<Rightarrow> exn + registry" where
  "np_zeros rows cols =
     (if rows < 0 then Inl (Raise ValueError ''negative dimensions are not allowed'')
      else Inr (replicate (nat rows) (replicate cols 0)))"

text \<open>
  \<open>feature_registry[:, i] = v\<close>: \<open>v\<close> has one entry for each row, or a single entry
  that is broadcast to every row; any other length is a \<open>ValueError\<close>.
\<close>

definition assign_column :: "registry \<Rightarrow> nat \<Rightarrow> real list \<Rightarrow> exn + registry" where
  "assign_column reg i v =
     (if length v = length reg then Inr (map (\<lambda>(row, x). row[i := x]) (zip reg v))
      else if length v = 1 then Inr (map (\<lambda>row. row[i := hd v]) reg)
      else Inl (Raise ValueError ''could not broadcast input array''))"

text \<open>The loop over \<open>range(n)\<close>: \<open>i\<close> counts the embeddings already stored.\<close>

fun fill_registry ::
  "SparseAutoencoder \<Rightarrow> real list list \<Rightarrow> nat \<Rightarrow> registry \<Rightarrow> exn + registry" where
  "fill_registry sae [] i reg = Inr reg"
| "fill_registry sae (embedding # rest) i reg =
     (case assign_column reg i (snd (forward sae embedding)) of
        Inl e \<Rightarrow> Inl e
      | Inr reg' \<Rightarrow> fill_registry sae rest (Suc i) reg')"

definition build_registry ::
  "SparseAutoencoder \<Rightarrow> real list list \<Rightarrow> int \<Rightarrow> exn + registry" where
  "build_registry sae embeddings n_feature_activations =
     (case np_zeros n_feature_activations (length embeddings) of
        Inl e \<Rightarrow> Inl e
      | Inr reg \<Rightarrow> fill_registry sae embeddings 0 reg)"

text \<open>\<open>feature_registry[:max_features, :]\<close>, a Python slice: a negative bound counts
  from the end.\<close>

definition slice_to :: "'a list \<Rightarrow> int \<Rightarrow> 'a list" where
  "slice_to xs m = (if m < 0 then take (nat (int (length xs) + m)) xs else take (nat m) xs)"

definition truncate_registry :: "registry \<Rightarrow> int option \<Rightarrow> registry" where
  "truncate_registry reg max_features =
     (case max_features of None \<Rightarrow> reg | Some m \<Rightarrow> slice_to reg m)"

subsection \<open>Evidence for one feature\<close>

text \<open>The comprehension over \<open>enumerate(feature)\<close>: \<open>text_data[i]\<close> raises
  \<open>IndexError\<close> past the end of \<open>text_data\<close>.\<close>

fun feature_samples :: "string list \<Rightarrow> nat \<Rightarrow> real list \<Rightarrow> exn + FeatureSample list" where
  "feature_samples text_data i [] = Inr []"
| "feature_samples text_data i (v # vs) =
     (if i < length text_data then
        (case feature_samples text_data (Suc i) vs of
           Inl e \<Rightarrow> Inl e
         | Inr rest \<Rightarrow> Inr (\<lparr>text_of = text_data ! i, act = v\<rparr> # rest))
      else Inl (Raise IndexError ''list index out of range''))"

text \<open>\<open>sort(key=lambda x: x.act, reverse=True)\<close>: descending and stable.\<close>

definition sort_reverse :: "FeatureSample list \<Rightarrow> FeatureSample list" where
  "sort_reverse xs = sort_key (\<lambda>x. - act x) xs"

definition select_high :: "FeatureSample list \<Rightarrow> FeatureSample list" where
  "select_high sorted_samples = filter (\<lambda>s. act s \<noteq> 0) (take 50 sorted_samples)"

definition zero_pool :: "FeatureSample list \<Rightarrow> FeatureSample list" where
  "zero_pool sorted_samples = filter (\<lambda>s. act s = 0) sorted_samples"

definition sample_evidence ::
  "string list \<Rightarrow> real list \<Rightarrow> rng \<Rightarrow>
   exn + (FeatureSample list \<times> FeatureSample list \<times> rng)" where
  "sample_evidence text_data feature g =
     (case feature_samples text_data 0 feature of
        Inl e \<Rightarrow> Inl e
      | Inr samples \<Rightarrow>
          (let sorted_samples = sort_reverse samples;
               high = select_high sorted_samples
           in case random_choice (zero_pool sorted_samples) 50 g of
                Inl e \<Rightarrow> Inl e
              | Inr (low, g') \<Rightarrow> Inr (high, low, g')))"

subsection \<open>The service calls of one feature\<close>

text \<open>The body of the \<open>try\<close>: \<open>Inl e\<close> when a call or a subscript raises \<open>e\<close>.\<close>

definition try_block ::
  "'s OpenAIClient \<Rightarrow> 's \<Rightarrow> FeatureSample list \<Rightarrow> FeatureSample list \<Rightarrow>
   (exn + (pyval \<times> pyval \<times> pyval \<times> pyval \<times> pyval)) \<times> 's" where
  "try_block ai s high low =
     (case get_interpretation ai s high low of
        (Inl e, s1) \<Rightarrow> (Inl e, s1)
      | (Inr interpetation, s1) \<Rightarrow>
     (case subscript interpetation ''label'' of
        Inl e \<Rightarrow> (Inl e, s1)
      | Inr lbl \<Rightarrow>
     (case subscript interpetation ''reasoning'' of
        Inl e \<Rightarrow> (Inl e, s1)
      | Inr rsn \<Rightarrow>
     (case subscript interpetation ''attributes'' of
        Inl e \<Rightarrow> (Inl e, s1)
      | Inr attrs \<Rightarrow>
     (case score_interpretation ai s1 high attrs of
        (Inl e, s2) \<Rightarrow> (Inl e, s2)
      | (Inr r1, s2) \<Rightarrow>
     (case subscript r1 ''percent'' of
        Inl e \<Rightarrow> (Inl e, s2)
      | Inr high_act_score \<Rightarrow>
     (case score_interpretation ai s2 low attrs of
        (Inl e, s3) \<Rightarrow> (Inl e, s3)
      | (Inr r2, s3) \<Rightarrow>
     (case subscript r2 ''percent'' of
        Inl e \<Rightarrow> (Inl e, s3)
      | Inr low_act_score \<Rightarrow>
          (Inr (lbl, rsn, attrs, high_act_score, low_act_score), s3)))))))))"

definition count_nonzero :: "real list \<Rightarrow> nat" where
  "count_nonzero feature = length (filter (\<lambda>v. v \<noteq> 0) feature)"

text \<open>\<open>np.count_nonzero(feature) / len(feature)\<close>, a division of two Python integers.\<close>

definition density_of :: "real list \<Rightarrow> exn + real" where
  "density_of feature =
     (if length feature = 0 then Inl (Raise ZeroDivisionError ''division by zero'')
      else Inr (real (count_nonzero feature) / real (length feature)))"

text \<open>The construction of the \<open>Feature\<close>; \<open>confidence\<close> is evaluated before
  \<open>density\<close>.\<close>

definition make_feature ::
  "nat \<Rightarrow> real list \<Rightarrow> pyval \<Rightarrow> pyval \<Rightarrow> pyval \<Rightarrow> pyval \<Rightarrow> pyval \<Rightarrow>
   FeatureSample list \<Rightarrow> FeatureSample list \<Rightarrow> exn + Feature" where
  "make_feature idx feature lbl rsn attrs high_act_score low_act_score high low =
     (case abs_diff high_act_score low_act_score of
        Inl e \<Rightarrow> Inl e
      | Inr c \<Rightarrow>
     (case density_of feature of
        Inl e \<Rightarrow> Inl e
      | Inr d \<Rightarrow>
          Inr \<lparr>index = idx, label = lbl, attributes = attrs, reasoning = rsn,
               confidence = c, density = d,
               high_act_samples = high, low_act_samples = low\<rparr>))"

subsection \<open>The pipeline\<close>

text \<open>
  What the pipeline changes: the state of the service, the state of the caller's handler,
  the random source and the printed lines. \<open>handled\<close> records the features passed to the
  handler, in order.
\<close>

record ('s, 'h) world =
  ai_state :: 's
  handler_state :: 'h
  rng_state :: rng
  stdout :: "string list"
  handled :: "Feature list"

type_synonym 'h handler = "'h \<Rightarrow> Feature \<Rightarrow> exn + 'h"

text \<open>One turn of the loop over the features: \<open>Inl e\<close> when \<open>e\<close> leaves the pipeline,
  \<open>Inr w\<close> when the loop goes on from \<open>w\<close>.\<close>

definition process_feature ::
  "'s OpenAIClient \<Rightarrow> 'h handler \<Rightarrow> string list \<Rightarrow> nat \<Rightarrow> real list \<Rightarrow>
   ('s, 'h) world \<Rightarrow> exn + ('s, 'h) world" where
  "process_feature ai handle_labelled_feature text_data idx feature w =
     (case sample_evidence text_data feature (rng_state w) of
        Inl e \<Rightarrow> Inl e
      | Inr (high, low, g') \<Rightarrow>
     (case try_block ai (ai_state w) high low of
        (Inl e, s') \<Rightarrow>
          Inr (w\<lparr>ai_state := s', rng_state := g',
                 stdout := stdout w @ [''Skipping feature due to error: '' @ exn_str e]\<rparr>)
      | (Inr (lbl, rsn, attrs, high_act_score, low_act_score), s') \<Rightarrow>
     (case make_feature idx feature lbl rsn attrs high_act_score low_act_score high low of
        Inl e \<Rightarrow> Inl e
      | Inr labelled_feature \<Rightarrow>
     (case handle_labelled_feature (handler_state w) labelled_feature of
        Inl e \<Rightarrow> Inl e
      | Inr h' \<Rightarrow>
          Inr (w\<lparr>ai_state := s', rng_state := g', handler_state := h',
                 handled := handled w @ [labelled_feature]\<rparr>)))))"

fun process_features ::
  "'s OpenAIClient \<Rightarrow> 'h handler \<Rightarrow> string list \<Rightarrow> nat \<Rightarrow> registry \<Rightarrow>
   ('s, 'h) world \<Rightarrow> exn + ('s, 'h) world" where
  "process_features ai handle_labelled_feature text_data idx [] w = Inr w"
| "process_features ai handle_labelled_feature text_data idx (feature # rest) w =
     (case process_feature ai handle_labelled_feature text_data idx feature w of
        Inl e \<Rightarrow> Inl e
      | Inr w' \<Rightarrow> process_features ai handle_labelled_feature text_data (Suc idx) rest w')"

definition run_interp_pipeline ::
  "'s OpenAIClient \<Rightarrow> SparseAutoencoder \<Rightarrow> real list list \<Rightarrow> string list \<Rightarrow> int \<Rightarrow>
   'h handler \<Rightarrow> int option \<Rightarrow> ('s, 'h) world \<Rightarrow> exn + ('s, 'h) world" where
  "run_interp_pipeline ai sae embeddings text_data n_feature_activations
     handle_labelled_feature max_features w =
     (case build_registry sae embeddings n_feature_activations of
        Inl e \<Rightarrow> Inl e
      | Inr feature_registry \<Rightarrow>
          process_features ai handle_labelled_feature text_data 0
            (truncate_registry feature_registry max_features) w)"

subsection \<open>Scenarios\<close>

text \<open>A model with two features: the first two coordinates of the embedding, cut off
  below at zero.\<close>

definition two_feature_sae :: SparseAutoencoder where
  "two_feature_sae = \<lparr>forward = (\<lambda>x. (x, map (\<lambda>v. max v 0) (take 2 x)))\<rparr>"

text \<open>A service that answers every call; its state counts the calls.\<close>

definition labelling_ai :: "nat OpenAIClient" where
  "labelling_ai =
     \<lparr>get_interpretation = (\<lambda>s high low.
        (Inr [''label'' \<mapsto> PyStr ''topic'', ''reasoning'' \<mapsto> PyStr ''because'',
              ''attributes'' \<mapsto> PyList [PyStr ''short'']], Suc s)),
      score_interpretation = (\<lambda>s samples attrs.
        (Inr [''percent'' \<mapsto>
                PyNum (if samples = [] then 0 else if act (hd samples) = 0 then 10 else 90)],
         Suc s))\<rparr>"

text \<open>A service that raises on every call.\<close>

definition failing_ai :: "nat OpenAIClient" where
  "failing_ai =
     \<lparr>get_interpretation = (\<lambda>s high low. (Inl (Raise OtherException ''timeout''), Suc s)),
      score_interpretation = (\<lambda>s samples attrs. (Inl (Raise OtherException ''timeout''), Suc s))\<rparr>"

text \<open>A handler that keeps the features it is given.\<close>

definition collect :: "Feature list handler" where
  "collect h f = Inr (h @ [f])"

definition initial_world :: "(nat, Feature list) world" where
  "initial_world =
     \<lparr>ai_state = 0, handler_state = [], rng_state = (\<lambda>k. 3 * k + 1), stdout = [],
      handled = []\<rparr>"

text \<open>Three embeddings of dimension four; feature 0 is active on the first one only and
  feature 1 never.\<close>

definition small_embeddings :: "real list list" where
  "small_embeddings = [[1, 0, 0, 0], [0, 0, 0, 0], [0, 0, 0, 0]]"

definition small_text_data :: "string list" where
  "small_text_data = [''one'', ''two'', ''three'']"

text \<open>Fifty embeddings on which no feature is active.\<close>

definition quiet_embeddings :: "real list list" where
  "quiet_embeddings = replicate 50 [0, 0, 0, 0]"

text \<open>Fifty-two embeddings; feature 0 is active on the first two and feature 1 on
  none.\<close>

definition mixed_embeddings :: "real list list" where
  "mixed_embeddings = [1, 0, 0, 0] # [3, 0, 0, 0] # replicate 50 [0, 0, 0, 0]"

definition text_data_52 :: "string list" where
  "text_data_52 = replicate 52 ''sentence''"

definition active_row :: "real list" where
  "active_row = 1 # 3 # replicate 50 0"

definition dead_row :: "real list" where
  "dead_row = replicate 50 0"

section \<open>Properties\<close>

subsection \<open>Results that are not errors\<close>

lemma Inr_projr: "\<not> isl x \<Longrightarrow> x = Inr (projr x)"
  by (cases x) simp_all

subsection \<open>Sampling\<close>

lemma random_interval_le: "fst (random_interval g m) \<le> m"
  by (simp add: random_interval_def)

lemma shuffle_down_mset:
  "k < length xs \<Longrightarrow> mset (fst (shuffle_down k xs g)) = mset xs"
proof (induction k arbitrary: xs g)
  case 0
  then show ?case by simp
next
  case (Suc k)
  obtain j g' where r: "random_interval g (Suc k) = (j, g')"
    by (cases "random_interval g (Suc k)")
  then have "j \<le> Suc k"
    using random_interval_le [of g "Suc k"] by simp
  with Suc.prems have j: "j < length xs" by simp
  let ?ys = "xs[Suc k := xs ! j, j := xs ! Suc k]"
  have "mset ?ys = mset xs"
    using j Suc.prems by (rule mset_swap)
  moreover have "mset (fst (shuffle_down k ?ys g')) = mset ?ys"
    using Suc.prems by (intro Suc.IH) simp
  ultimately show ?case using r by simp
qed

lemma permutation_mset: "mset (fst (permutation n g)) = mset [0..<n]"
proof (cases n)
  case 0
  then show ?thesis by (simp add: permutation_def shuffle_def)
next
  case (Suc m)
  then show ?thesis
    unfolding permutation_def shuffle_def by (intro shuffle_down_mset) simp
qed

lemma permutation_props:
  "distinct (fst (permutation n g))"
  "set (fst (permutation n g)) = {0..<n}"
  "length (fst (permutation n g)) = n"
proof -
  have m: "mset (fst (permutation n g)) = mset [0..<n]" by (rule permutation_mset)
  show "distinct (fst (permutation n g))"
    using m by (metis distinct_upt mset_eq_imp_distinct_iff)
  show "set (fst (permutation n g)) = {0..<n}"
    using m by (metis mset_eq_setD set_upt)
  show "length (fst (permutation n g)) = n"
    using m by (metis length_upt mset_eq_length minus_nat.diff_0)
qed

lemma random_choice_short:
  "length a < k \<Longrightarrow> \<exists>msg. random_choice a k g = Inl (Raise ValueError msg)"
  by (simp add: random_choice_def)

lemma random_choice_enough:
  assumes "k \<le> length a"
  shows "\<exists>idx g'. random_choice a k g = Inr (map (\<lambda>i. a ! i) idx, g') \<and>
           distinct idx \<and> length idx = k \<and> (\<forall>i\<in>set idx. i < length a)"
proof -
  obtain p g' where p: "permutation (length a) g = (p, g')"
    by (cases "permutation (length a) g")
  have d: "distinct p" and s: "set p = {0..<length a}" and l: "length p = length a"
    using permutation_props [of "length a" g] p by simp_all
  have "random_choice a k g = Inr (map (\<lambda>i. a ! i) (take k p), g')"
    using assms p by (auto simp: random_choice_def)
  moreover have "distinct (take k p)" using d by simp
  moreover have "length (take k p) = k" using l assms by simp
  moreover have "\<forall>i\<in>set (take k p). i < length a"
    using s by (auto dest: in_set_takeD)
  ultimately show ?thesis by blast
qed

lemma feature_samples_ok:
  "i + length vs \<le> length text_data \<Longrightarrow>
   \<exists>samples. feature_samples text_data i vs = Inr samples \<and> map act samples = vs"
proof (induction vs arbitrary: i)
  case Nil
  then show ?case by simp
next
  case (Cons v vs)
  then have "Suc i + length vs \<le> length text_data" by simp
  from Cons.IH [OF this] obtain rest where
    "feature_samples text_data (Suc i) vs = Inr rest" "map act rest = vs" by blast
  with Cons.prems show ?case by simp
qed

lemma feature_samples_acts:
  "feature_samples text_data i vs = Inr samples \<Longrightarrow> map act samples = vs"
proof (induction vs arbitrary: i samples)
  case Nil
  then show ?case by simp
next
  case (Cons v vs)
  then show ?case by (auto split: if_splits sum.splits)
qed

lemma sort_reverse_mset: "mset (sort_reverse xs) = mset xs"
  by (simp add: sort_reverse_def)

lemma sort_reverse_descending:
  "sorted_wrt (\<lambda>a b. act b \<le> act a) (sort_reverse xs)"
proof -
  have "sorted (map (\<lambda>x. - act x) (sort_reverse xs))"
    unfolding sort_reverse_def by (rule sorted_sort_key)
  then show ?thesis
    by (simp add: sorted_wrt_map)
qed

lemma filter_take_descending:
  assumes "sorted_wrt (\<lambda>a b. act b \<le> act a) xs" and "\<forall>x\<in>set xs. 0 \<le> act x"
  shows "filter (\<lambda>s. act s \<noteq> 0) (take n xs) =
         take (min n (length (filter (\<lambda>s. act s \<noteq> 0) xs))) xs"
  using assms
proof (induction xs arbitrary: n)
  case Nil
  then show ?case by simp
next
  case (Cons x xs)
  show ?case
  proof (cases n)
    case 0
    then show ?thesis by simp
  next
    case (Suc m)
    show ?thesis
    proof (cases "act x = 0")
      case True
      with Cons.prems have "\<forall>y\<in>set xs. act y = 0" by fastforce
      then have "filter (\<lambda>s. act s \<noteq> 0) xs = []" "filter (\<lambda>s. act s \<noteq> 0) (take m xs) = []"
        by (auto simp: filter_empty_conv dest: in_set_takeD)
      with True Suc show ?thesis by simp
    next
      case False
      with Cons Suc show ?thesis by simp
    qed
  qed
qed

lemma count_nonzero_sorted:
  assumes "map act samples = feature"
  shows "length (filter (\<lambda>s. act s \<noteq> 0) (sort_reverse samples)) = count_nonzero feature"
proof -
  have "length (filter (\<lambda>s. act s \<noteq> 0) (sort_reverse samples)) =
        size (filter_mset (\<lambda>s. act s \<noteq> 0) (mset (sort_reverse samples)))"
    by (metis mset_filter size_mset)
  also have "\<dots> = length (filter (\<lambda>s. act s \<noteq> 0) samples)"
    by (metis sort_reverse_mset mset_filter size_mset)
  also have "\<dots> = length (filter (\<lambda>v. v \<noteq> 0) (map act samples))"
    by (simp add: filter_map comp_def)
  finally show ?thesis using assms by (simp add: count_nonzero_def)
qed

lemma zero_pool_length:
  assumes "map act samples = feature"
  shows "length (zero_pool (sort_reverse samples)) = length (filter (\<lambda>v. v = 0) feature)"
proof -
  have "length (filter (\<lambda>s. act s = 0) (sort_reverse samples)) =
        size (filter_mset (\<lambda>s. act s = 0) (mset (sort_reverse samples)))"
    by (metis mset_filter size_mset)
  also have "\<dots> = length (filter (\<lambda>s. act s = 0) samples)"
    by (metis sort_reverse_mset mset_filter size_mset)
  also have "\<dots> = length (filter (\<lambda>v. v = 0) (map act samples))"
    by (simp add: filter_map comp_def)
  finally show ?thesis using assms by (simp add: zero_pool_def)
qed

subsection \<open>One turn of the loop\<close>

lemma try_block_returns:
  assumes "try_block ai s high low = (Inr (lbl, rsn, attrs, hs, ls), s3)"
  shows "\<exists>interp s1 r1 s2 r2.
           get_interpretation ai s high low = (Inr interp, s1) \<and>
           interp ''label'' = Some lbl \<and> interp ''reasoning'' = Some rsn \<and>
           interp ''attributes'' = Some attrs \<and>
           score_interpretation ai s1 high attrs = (Inr r1, s2) \<and>
           r1 ''percent'' = Some hs \<and>
           score_interpretation ai s2 low attrs = (Inr r2, s3) \<and>
           r2 ''percent'' = Some ls"
  using assms unfolding try_block_def subscript_def
  by (auto split: prod.splits sum.splits option.splits)

lemma try_block_answered:
  assumes "get_interpretation ai s high low = (Inr interp, s1)"
      and "interp ''label'' = Some lbl" and "interp ''reasoning'' = Some rsn"
      and "interp ''attributes'' = Some attrs"
      and "score_interpretation ai s1 high attrs = (Inr r1, s2)"
      and "r1 ''percent'' = Some hs"
      and "score_interpretation ai s2 low attrs = (Inr r2, s3)"
      and "r2 ''percent'' = Some ls"
  shows "try_block ai s high low = (Inr (lbl, rsn, attrs, hs, ls), s3)"
  using assms by (simp add: try_block_def subscript_def)

lemma try_block_interpretation_raises:
  "get_interpretation ai s high low = (Inl e, s1) \<Longrightarrow>
   try_block ai s high low = (Inl e, s1)"
  by (simp add: try_block_def)

lemma try_block_high_score_raises:
  assumes "get_interpretation ai s high low = (Inr interp, s1)"
      and "interp ''label'' = Some lbl" and "interp ''reasoning'' = Some rsn"
      and "interp ''attributes'' = Some attrs"
      and "score_interpretation ai s1 high attrs = (Inl e, s2)"
  shows "try_block ai s high low = (Inl e, s2)"
  using assms by (simp add: try_block_def subscript_def)

lemma try_block_low_score_raises:
  assumes "get_interpretation ai s high low = (Inr interp, s1)"
      and "interp ''label'' = Some lbl" and "interp ''reasoning'' = Some rsn"
      and "interp ''attributes'' = Some attrs"
      and "score_interpretation ai s1 high attrs = (Inr r1, s2)"
      and "r1 ''percent'' = Some hs"
      and "score_interpretation ai s2 low attrs = (Inl e, s3)"
  shows "try_block ai s high low = (Inl e, s3)"
  using assms by (simp add: try_block_def subscript_def)

lemma process_feature_skips:
  assumes "sample_evidence text_data feature (rng_state w) = Inr (high, low, g')"
      and "try_block ai (ai_state w) high low = (Inl e, s')"
  shows "process_feature ai handle_labelled_feature text_data idx feature w =
           Inr (w\<lparr>ai_state := s', rng_state := g',
                  stdout := stdout w @ [''Skipping feature due to error: '' @ exn_str e]\<rparr>)"
  using assms by (simp add: process_feature_def)

lemma process_feature_emits:
  assumes "sample_evidence text_data feature (rng_state w) = Inr (high, low, g')"
      and "try_block ai (ai_state w) high low = (Inr (lbl, rsn, attrs, hs, ls), s')"
      and "make_feature idx feature lbl rsn attrs hs ls high low = Inr f"
      and "handle_labelled_feature (handler_state w) f = Inr h'"
  shows "process_feature ai handle_labelled_feature text_data idx feature w =
           Inr (w\<lparr>ai_state := s', rng_state := g', handler_state := h',
                  handled := handled w @ [f]\<rparr>)"
  using assms by (simp add: process_feature_def)

lemma process_feature_emitted:
  assumes "process_feature ai handle_labelled_feature text_data idx feature w = Inr w'"
      and "handled w' = handled w @ [f]"
  shows "\<exists>high low g' lbl rsn attrs hs ls s' h'.
           sample_evidence text_data feature (rng_state w) = Inr (high, low, g') \<and>
           try_block ai (ai_state w) high low = (Inr (lbl, rsn, attrs, hs, ls), s') \<and>
           make_feature idx feature lbl rsn attrs hs ls high low = Inr f \<and>
           handle_labelled_feature (handler_state w) f = Inr h'"
  using assms unfolding process_feature_def
  by (auto split: sum.splits prod.splits)

lemma process_feature_handled:
  assumes "process_feature ai handle_labelled_feature text_data idx feature w = Inr w'"
  shows "handled w' = handled w \<or> (\<exists>f. handled w' = handled w @ [f] \<and> index f = idx)"
  using assms unfolding process_feature_def make_feature_def
  by (auto split: sum.splits prod.splits)

lemma make_feature_fields:
  assumes "make_feature idx feature lbl rsn attrs hs ls high low = Inr f"
  shows "\<exists>x y. hs = PyNum x \<and> ls = PyNum y \<and> confidence f = \<bar>x - y\<bar>"
    and "density_of feature = Inr (density f)"
    and "high_act_samples f = high" and "low_act_samples f = low" and "index f = idx"
proof -
  from assms obtain c d where c: "abs_diff hs ls = Inr c" and d: "density_of feature = Inr d"
    and f: "f = \<lparr>index = idx, label = lbl, attributes = attrs, reasoning = rsn,
               confidence = c, density = d, high_act_samples = high, low_act_samples = low\<rparr>"
    unfolding make_feature_def by (auto split: sum.splits)
  from c show "\<exists>x y. hs = PyNum x \<and> ls = PyNum y \<and> confidence f = \<bar>x - y\<bar>"
    using f by (cases "(hs, ls)" rule: abs_diff.cases) auto
  show "density_of feature = Inr (density f)" using d f by simp
  show "high_act_samples f = high" "low_act_samples f = low" "index f = idx"
    using f by simp_all
qed

subsection \<open>Too few zero activations\<close>

lemma sample_evidence_shortage:
  assumes "length (filter (\<lambda>v. v = 0) feature) < 50"
      and "length feature \<le> length text_data"
  shows "\<exists>msg. sample_evidence text_data feature g = Inl (Raise ValueError msg)"
proof -
  from assms(2) obtain samples where
    s: "feature_samples text_data 0 feature = Inr samples" and a: "map act samples = feature"
    using feature_samples_ok [of 0 feature text_data] by auto
  have "length (zero_pool (sort_reverse samples)) < 50"
    using zero_pool_length [OF a] assms(1) by simp
  from random_choice_short [OF this] obtain msg where
    "random_choice (zero_pool (sort_reverse samples)) 50 g = Inl (Raise ValueError msg)"
    by blast
  with s show ?thesis by (simp add: sample_evidence_def)
qed

text \<open>
  C1. The claim is that a feature row with fewer than 50 exactly-zero entries is skipped
  and that no error leaves the pipeline. The code does otherwise: the draw of the
  low-evidence set stands before the \<open>try\<close>, so for every such row (with a text for
  each sample) the \<open>ValueError\<close> of \<open>np.random.choice\<close> leaves the loop, and the
  features after it are not processed.
\<close>

theorem evidence_shortage_raises:
  assumes "length (filter (\<lambda>v. v = 0) feature) < 50"
      and "length feature \<le> length text_data"
  shows "\<exists>msg. process_feature ai handle_labelled_feature text_data idx feature w =
                 Inl (Raise ValueError msg) \<and>
               process_features ai handle_labelled_feature text_data idx (feature # rest) w =
                 Inl (Raise ValueError msg)"
proof -
  from sample_evidence_shortage [OF assms] obtain msg where
    "sample_evidence text_data feature (rng_state w) = Inl (Raise ValueError msg)"
    by blast
  then have "process_feature ai handle_labelled_feature text_data idx feature w =
               Inl (Raise ValueError msg)"
    by (simp add: process_feature_def)
  then show ?thesis by simp
qed

text \<open>On the three-sentence corpus the registry is \<open>[[1, 0, 0], [0, 0, 0]]\<close> and the
  run ends with the \<open>ValueError\<close> at feature 0.\<close>

theorem evidence_shortage_raises_witness:
  "\<exists>msg. run_interp_pipeline labelling_ai two_feature_sae small_embeddings small_text_data 2
            collect None initial_world = Inl (Raise ValueError msg)"
proof -
  have b: "build_registry two_feature_sae small_embeddings 2 = Inr [[1, 0, 0], [0, 0, 0]]"
    by code_simp
  have h1: "length (filter (\<lambda>v. v = 0) [1, 0, 0 :: real]) < 50" by simp
  have h2: "length [1, 0, 0 :: real] \<le> length small_text_data"
    by (simp add: small_text_data_def)
  from evidence_shortage_raises [OF h1 h2, where ai = labelling_ai
      and handle_labelled_feature = collect and idx = 0 and rest = "[[0, 0, 0]]"
      and w = initial_world]
  show ?thesis
    by (auto simp: run_interp_pipeline_def b truncate_registry_def)
qed

subsection \<open>Failures of the service\<close>

text \<open>
  C2. When the body of the \<open>try\<close> raises for a feature (\<open>try_block\<close> returns
  \<open>Inl e\<close>; by \<open>try_block_interpretation_raises\<close>, \<open>try_block_high_score_raises\<close> and
  \<open>try_block_low_score_raises\<close> that is the case when the interpretation call or one of
  the two scoring calls raises \<open>e\<close>), the handler is not invoked, one line is printed,
  and the loop goes on with the next feature.
\<close>

theorem service_exception_skips_feature:
  assumes "sample_evidence text_data feature (rng_state w) = Inr (high, low, g')"
      and "try_block ai (ai_state w) high low = (Inl e, s')"
  shows "\<exists>w'. process_feature ai handle_labelled_feature text_data idx feature w = Inr w' \<and>
           handled w' = handled w \<and> handler_state w' = handler_state w \<and>
           stdout w' = stdout w @ [''Skipping feature due to error: '' @ exn_str e] \<and>
           process_features ai handle_labelled_feature text_data idx (feature # rest) w =
             process_features ai handle_labelled_feature text_data (Suc idx) rest w'"
  using process_feature_skips [OF assms, of handle_labelled_feature idx] by simp

theorem service_exception_skips_feature_witness:
  "\<exists>w'. process_feature failing_ai collect text_data_52 0 dead_row initial_world = Inr w' \<and>
     handled w' = handled initial_world \<and> handler_state w' = handler_state initial_world \<and>
     stdout w' = stdout initial_world @
       [''Skipping feature due to error: '' @ exn_str (Raise OtherException ''timeout'')] \<and>
     process_features failing_ai collect text_data_52 0 (dead_row # [dead_row]) initial_world =
       process_features failing_ai collect text_data_52 (Suc 0) [dead_row] w'"
proof -
  let ?r = "sample_evidence text_data_52 dead_row (rng_state initial_world)"
  have "\<not> isl ?r" by code_simp
  then have h1: "?r = Inr (fst (projr ?r), fst (snd (projr ?r)), snd (snd (projr ?r)))"
    by (simp add: Inr_projr)
  have h2: "try_block failing_ai (ai_state initial_world) (fst (projr ?r)) (fst (snd (projr ?r)))
              = (Inl (Raise OtherException ''timeout''), Suc 0)"
    by (simp add: try_block_def failing_ai_def initial_world_def)
  show ?thesis by (rule service_exception_skips_feature [OF h1 h2])
qed

subsection \<open>The emitted record\<close>

text \<open>
  C4. When a turn of the loop hands a feature \<open>f\<close> to the handler, the two scoring
  calls returned numbers \<open>hp\<close> (on the high-evidence set) and \<open>lp\<close> (on the
  low-evidence set) under \<open>percent\<close>, and \<open>confidence f\<close> is \<open>\<bar>hp - lp\<bar>\<close>; it is
  0 exactly when the two are equal.
\<close>

theorem confidence_is_score_gap:
  assumes "process_feature ai handle_labelled_feature text_data idx feature w = Inr w'"
      and "handled w' = handled w @ [f]"
  shows "\<exists>high low g' interp s1 attrs r1 s2 r2 s3 hp lp.
           sample_evidence text_data feature (rng_state w) = Inr (high, low, g') \<and>
           get_interpretation ai (ai_state w) high low = (Inr interp, s1) \<and>
           interp ''attributes'' = Some attrs \<and>
           score_interpretation ai s1 high attrs = (Inr r1, s2) \<and>
           r1 ''percent'' = Some (PyNum hp) \<and>
           score_interpretation ai s2 low attrs = (Inr r2, s3) \<and>
           r2 ''percent'' = Some (PyNum lp) \<and>
           confidence f = \<bar>hp - lp\<bar> \<and> (confidence f = 0) = (hp = lp)"
proof -
  from process_feature_emitted [OF assms] obtain high low g' lbl rsn attrs hs ls s' where
    ev: "sample_evidence text_data feature (rng_state w) = Inr (high, low, g')" and
    tb: "try_block ai (ai_state w) high low = (Inr (lbl, rsn, attrs, hs, ls), s')" and
    mk: "make_feature idx feature lbl rsn attrs hs ls high low = Inr f"
    by blast
  from make_feature_fields(1) [OF mk] obtain hp lp where
    n: "hs = PyNum hp" "ls = PyNum lp" and c: "confidence f = \<bar>hp - lp\<bar>"
    by blast
  from try_block_returns [OF tb] n obtain interp s1 r1 s2 r2 where
    "get_interpretation ai (ai_state w) high low = (Inr interp, s1)"
    "interp ''attributes'' = Some attrs"
    "score_interpretation ai s1 high attrs = (Inr r1, s2)"
    "r1 ''percent'' = Some (PyNum hp)"
    "score_interpretation ai s2 low attrs = (Inr r2, s') "
    "r2 ''percent'' = Some (PyNum lp)"
    by blast
  with ev c show ?thesis by fastforce
qed

theorem confidence_is_score_gap_witness:
  "(\<exists>high low g' interp s1 attrs r1 s2 r2 s3 hp lp.
      sample_evidence text_data_52 active_row (rng_state initial_world) = Inr (high, low, g') \<and>
      get_interpretation labelling_ai (ai_state initial_world) high low = (Inr interp, s1) \<and>
      interp ''attributes'' = Some attrs \<and>
      score_interpretation labelling_ai s1 high attrs = (Inr r1, s2) \<and>
      r1 ''percent'' = Some (PyNum hp) \<and>
      score_interpretation labelling_ai s2 low attrs = (Inr r2, s3) \<and>
      r2 ''percent'' = Some (PyNum lp) \<and>
      confidence (last (handled (projr
        (process_feature labelling_ai collect text_data_52 0 active_row initial_world)))) =
        \<bar>hp - lp\<bar> \<and>
      (confidence (last (handled (projr
        (process_feature labelling_ai collect text_data_52 0 active_row initial_world)))) = 0) =
        (hp = lp)) \<and>
   confidence (last (handled (projr
     (process_feature labelling_ai collect text_data_52 0 active_row initial_world)))) = 80"
proof -
  let ?r = "process_feature labelling_ai collect text_data_52 0 active_row initial_world"
  have "\<not> isl ?r" by code_simp
  then have h1: "?r = Inr (projr ?r)" by (rule Inr_projr)
  have h2: "handled (projr ?r) = handled initial_world @ [last (handled (projr ?r))]"
    by code_simp
  have c: "confidence (last (handled (projr ?r))) = 80" by code_simp
  from confidence_is_score_gap [OF h1 h2] c show ?thesis by blast
qed

lemma density_of_all_zero:
  "feature \<noteq> [] \<Longrightarrow> \<forall>v\<in>set feature. v = 0 \<Longrightarrow> density_of feature = Inr 0"
  by (simp add: density_of_def count_nonzero_def filter_empty_conv)

lemma density_of_all_nonzero:
  "feature \<noteq> [] \<Longrightarrow> \<forall>v\<in>set feature. v \<noteq> 0 \<Longrightarrow> density_of feature = Inr 1"
  by (simp add: density_of_def count_nonzero_def)

text \<open>
  C5. The density of a feature handed to the handler is the number of non-zero entries of
  its whole row divided by the length of the row (the row is not empty then). The quotient
  \<open>np.count_nonzero(feature) / len(feature)\<close> is 0 on a non-empty row of zeros and 1 on
  a non-empty row without a zero.
\<close>

theorem density_is_nonzero_fraction:
  "(process_feature ai handle_labelled_feature text_data idx feature w = Inr w' \<and>
    handled w' = handled w @ [f] \<longrightarrow>
      feature \<noteq> [] \<and> density f = real (count_nonzero feature) / real (length feature)) \<and>
   (zeros \<noteq> [] \<and> (\<forall>v\<in>set zeros. v = 0) \<longrightarrow> density_of zeros = Inr 0) \<and>
   (nonzeros \<noteq> [] \<and> (\<forall>v\<in>set nonzeros. v \<noteq> 0) \<longrightarrow> density_of nonzeros = Inr 1)"
proof (intro conjI impI)
  assume a: "process_feature ai handle_labelled_feature text_data idx feature w = Inr w' \<and>
    handled w' = handled w @ [f]"
  then obtain high low g' lbl rsn attrs hs ls s' where
    "make_feature idx feature lbl rsn attrs hs ls high low = Inr f"
    using process_feature_emitted [of ai handle_labelled_feature text_data idx feature w w' f]
    by blast
  from make_feature_fields(2) [OF this]
  have d: "density_of feature = Inr (density f)" .
  then show "feature \<noteq> []" by (auto simp: density_of_def)
  from d show "density f = real (count_nonzero feature) / real (length feature)"
    by (auto simp: density_of_def split: if_splits)
next
  assume "zeros \<noteq> [] \<and> (\<forall>v\<in>set zeros. v = 0)"
  then show "density_of zeros = Inr 0" by (simp add: density_of_all_zero)
next
  assume "nonzeros \<noteq> [] \<and> (\<forall>v\<in>set nonzeros. v \<noteq> 0)"
  then show "density_of nonzeros = Inr 1" by (simp add: density_of_all_nonzero)
qed

theorem density_is_nonzero_fraction_witness:
  "density (last (handled (projr
     (process_feature labelling_ai collect text_data_52 0 active_row initial_world)))) =
     real (count_nonzero active_row) / real (length active_row) \<and>
   density (last (handled (projr
     (process_feature labelling_ai collect text_data_52 0 active_row initial_world)))) = 2 / 52 \<and>
   density_of dead_row = Inr 0 \<and>
   density_of [1, 3] = Inr 1"
proof -
  let ?r = "process_feature labelling_ai collect text_data_52 0 active_row initial_world"
  let ?f = "last (handled (projr ?r))"
  have "\<not> isl ?r" by code_simp
  then have h1: "?r = Inr (projr ?r)" by (rule Inr_projr)
  have h2: "handled (projr ?r) = handled initial_world @ [?f]"
    by code_simp
  have z: "dead_row \<noteq> [] \<and> (\<forall>v\<in>set dead_row. v = 0)"
    by (simp add: dead_row_def)
  have n: "[1, 3 :: real] \<noteq> [] \<and> (\<forall>v\<in>set [1, 3 :: real]. v \<noteq> 0)"
    by simp
  note t = density_is_nonzero_fraction [where ai = labelling_ai
      and handle_labelled_feature = collect and text_data = text_data_52 and idx = 0
      and feature = active_row and w = initial_world and w' = "projr ?r" and f = ?f
      and zeros = dead_row and nonzeros = "[1, 3]"]
  have a: "density ?f = real (count_nonzero active_row) / real (length active_row)"
    using t h1 h2 by blast
  have b: "real (count_nonzero active_row) / real (length active_row) = 2 / 52"
    by (simp add: active_row_def count_nonzero_def)
  have c: "density_of dead_row = Inr 0" using t z by blast
  have d: "density_of [1, 3] = Inr 1" using t n by blast
  have a': "density ?f = 2 / 52" using a unfolding b .
  show ?thesis by (intro conjI) (rule a, rule a', rule c, rule d)
qed

subsection \<open>The low-evidence set\<close>

lemma random_choice_drawn:
  assumes "random_choice a k g = Inr (res, g')"
  shows "\<exists>idx. res = map (\<lambda>i. a ! i) idx \<and> distinct idx \<and> length idx = k \<and>
           (\<forall>i\<in>set idx. i < length a)"
proof -
  have "k \<le> length a"
  proof (rule ccontr)
    assume "\<not> k \<le> length a"
    then have "length a < k" by simp
    from random_choice_short [OF this, of g] assms show False by auto
  qed
  from random_choice_enough [OF this, of g] assms show ?thesis by auto
qed

lemma sample_evidence_returns:
  assumes "sample_evidence text_data feature g = Inr (high, low, g')"
  shows "\<exists>samples. feature_samples text_data 0 feature = Inr samples \<and>
           high = select_high (sort_reverse samples) \<and>
           random_choice (zero_pool (sort_reverse samples)) 50 g = Inr (low, g')"
  using assms unfolding sample_evidence_def
  by (auto simp: Let_def split: sum.splits)

text \<open>
  C7. The low-evidence set of a feature handed to the handler has 50 entries: the samples at
  50 distinct positions of the list of samples whose activation is exactly zero, so each
  of them has activation 0.
\<close>

theorem low_evidence_set:
  assumes "process_feature ai handle_labelled_feature text_data idx feature w = Inr w'"
      and "handled w' = handled w @ [f]"
  shows "\<exists>samples idxs.
           feature_samples text_data 0 feature = Inr samples \<and>
           low_act_samples f = map (\<lambda>i. zero_pool (sort_reverse samples) ! i) idxs \<and>
           distinct idxs \<and> length idxs = 50 \<and>
           (\<forall>i\<in>set idxs. i < length (zero_pool (sort_reverse samples))) \<and>
           length (low_act_samples f) = 50 \<and>
           (\<forall>s\<in>set (low_act_samples f). act s = 0)"
proof -
  from process_feature_emitted [OF assms] obtain high low g' lbl rsn attrs hs ls where
    ev: "sample_evidence text_data feature (rng_state w) = Inr (high, low, g')" and
    mk: "make_feature idx feature lbl rsn attrs hs ls high low = Inr f"
    by blast
  from make_feature_fields(4) [OF mk] have l: "low_act_samples f = low" .
  from sample_evidence_returns [OF ev] obtain samples where
    s: "feature_samples text_data 0 feature = Inr samples" and
    c: "random_choice (zero_pool (sort_reverse samples)) 50 (rng_state w) = Inr (low, g')"
    by blast
  let ?pool = "zero_pool (sort_reverse samples)"
  from random_choice_drawn [OF c] obtain idxs where
    i: "low = map (\<lambda>i. ?pool ! i) idxs" "distinct idxs" "length idxs = 50"
       "\<forall>i\<in>set idxs. i < length ?pool"
    by blast
  have "\<forall>s\<in>set ?pool. act s = 0" by (simp add: zero_pool_def)
  with i have "\<forall>s\<in>set low. act s = 0" by auto
  with s l i show ?thesis by auto
qed

theorem low_evidence_set_witness:
  "\<exists>samples idxs.
     feature_samples text_data_52 0 active_row = Inr samples \<and>
     low_act_samples (last (handled (projr
       (process_feature labelling_ai collect text_data_52 0 active_row initial_world)))) =
       map (\<lambda>i. zero_pool (sort_reverse samples) ! i) idxs \<and>
     distinct idxs \<and> length idxs = 50 \<and>
     (\<forall>i\<in>set idxs. i < length (zero_pool (sort_reverse samples))) \<and>
     length (low_act_samples (last (handled (projr
       (process_feature labelling_ai collect text_data_52 0 active_row initial_world))))) = 50 \<and>
     (\<forall>s\<in>set (low_act_samples (last (handled (projr
       (process_feature labelling_ai collect text_data_52 0 active_row initial_world))))).
        act s = 0)"
proof -
  let ?r = "process_feature labelling_ai collect text_data_52 0 active_row initial_world"
  have "\<not> isl ?r" by code_simp
  then have h1: "?r = Inr (projr ?r)" by (rule Inr_projr)
  have h2: "handled (projr ?r) = handled initial_world @ [last (handled (projr ?r))]"
    by code_simp
  show ?thesis by (rule low_evidence_set [OF h1 h2])
qed

subsection \<open>Dead features\<close>

lemma sample_evidence_dead:
  assumes "\<forall>v\<in>set feature. v = 0" and "50 \<le> length feature"
      and "length feature \<le> length text_data"
  shows "\<exists>low g'. sample_evidence text_data feature g = Inr ([], low, g') \<and>
           length low = 50 \<and> (\<forall>s\<in>set low. act s = 0)"
proof -
  from assms(3) obtain samples where
    s: "feature_samples text_data 0 feature = Inr samples" and a: "map act samples = feature"
    using feature_samples_ok [of 0 feature text_data] by auto
  let ?sorted = "sort_reverse samples"
  have "set ?sorted = set samples"
    by (metis sort_reverse_mset set_mset_mset)
  moreover have "\<forall>x\<in>set samples. act x = 0"
    using a assms(1) by auto
  ultimately have z: "\<forall>x\<in>set ?sorted. act x = 0" by simp
  then have h: "select_high ?sorted = []"
    by (auto simp: select_high_def filter_empty_conv dest: in_set_takeD)
  have "filter (\<lambda>v. v = 0) feature = feature"
    using assms(1) by (simp add: filter_id_conv)
  then have "length (zero_pool ?sorted) = length feature"
    using zero_pool_length [OF a] by simp
  then have "50 \<le> length (zero_pool ?sorted)" using assms(2) by simp
  from random_choice_enough [OF this, of g] obtain idx g' where
    c: "random_choice (zero_pool ?sorted) 50 g = Inr (map (\<lambda>i. zero_pool ?sorted ! i) idx, g')"
    and l: "length idx = 50" and b: "\<forall>i\<in>set idx. i < length (zero_pool ?sorted)"
    by blast
  let ?low = "map (\<lambda>i. zero_pool ?sorted ! i) idx"
  have "\<forall>s\<in>set (zero_pool ?sorted). act s = 0" by (simp add: zero_pool_def)
  with b have "\<forall>s\<in>set ?low. act s = 0" by auto
  moreover have "sample_evidence text_data feature g = Inr ([], ?low, g')"
    using s h c by (simp add: sample_evidence_def)
  moreover have "length ?low = 50" using l by simp
  ultimately show ?thesis by blast
qed

text \<open>
  C10. A row of at least 50 samples that is zero everywhere is not set aside: the evidence
  is sampled with an empty high-evidence set, the \<open>try\<close> body runs on that empty set
  (whenever the loop goes on, the state of the service is the one that body leaves), and
  when the calls return numbers and the handler accepts the record, the feature is handed
  over with density 0 and no high-evidence sample.
\<close>

theorem dead_feature_is_interpreted:
  assumes "\<forall>v\<in>set feature. v = 0" and "50 \<le> length feature"
      and "length feature \<le> length text_data"
  shows "\<exists>low g'.
           sample_evidence text_data feature (rng_state w) = Inr ([], low, g') \<and>
           length low = 50 \<and> (\<forall>s\<in>set low. act s = 0) \<and>
           (\<forall>w'. process_feature ai handle_labelled_feature text_data idx feature w = Inr w'
              \<longrightarrow> ai_state w' = snd (try_block ai (ai_state w) [] low)) \<and>
           (\<forall>lbl rsn attrs hp lp s' h'.
              try_block ai (ai_state w) [] low =
                (Inr (lbl, rsn, attrs, PyNum hp, PyNum lp), s') \<and>
              handle_labelled_feature (handler_state w)
                \<lparr>index = idx, label = lbl, attributes = attrs, reasoning = rsn,
                 confidence = \<bar>hp - lp\<bar>, density = 0,
                 high_act_samples = [], low_act_samples = low\<rparr> = Inr h'
              \<longrightarrow> process_feature ai handle_labelled_feature text_data idx feature w =
                    Inr (w\<lparr>ai_state := s', rng_state := g', handler_state := h',
                           handled := handled w @
                             [\<lparr>index = idx, label = lbl, attributes = attrs, reasoning = rsn,
                               confidence = \<bar>hp - lp\<bar>, density = 0,
                               high_act_samples = [], low_act_samples = low\<rparr>]\<rparr>))"
proof -
  from sample_evidence_dead [OF assms, of "rng_state w"] obtain low g' where
    ev: "sample_evidence text_data feature (rng_state w) = Inr ([], low, g')" and
    l: "length low = 50" and z: "\<forall>s\<in>set low. act s = 0"
    by blast
  have ne: "feature \<noteq> []" using assms(2) by auto
  have d: "density_of feature = Inr 0"
    using ne assms(1) by (simp add: density_of_def count_nonzero_def filter_empty_conv)
  have st: "\<forall>w'. process_feature ai handle_labelled_feature text_data idx feature w = Inr w'
              \<longrightarrow> ai_state w' = snd (try_block ai (ai_state w) [] low)"
    using ev unfolding process_feature_def
    by (auto split: sum.splits prod.splits)
  have em: "\<forall>lbl rsn attrs hp lp s' h'.
              try_block ai (ai_state w) [] low =
                (Inr (lbl, rsn, attrs, PyNum hp, PyNum lp), s') \<and>
              handle_labelled_feature (handler_state w)
                \<lparr>index = idx, label = lbl, attributes = attrs, reasoning = rsn,
                 confidence = \<bar>hp - lp\<bar>, density = 0,
                 high_act_samples = [], low_act_samples = low\<rparr> = Inr h'
              \<longrightarrow> process_feature ai handle_labelled_feature text_data idx feature w =
                    Inr (w\<lparr>ai_state := s', rng_state := g', handler_state := h',
                           handled := handled w @
                             [\<lparr>index = idx, label = lbl, attributes = attrs, reasoning = rsn,
                               confidence = \<bar>hp - lp\<bar>, density = 0,
                               high_act_samples = [], low_act_samples = low\<rparr>]\<rparr>)"
    using ev d by (simp add: process_feature_def make_feature_def)
  from ev l z st em show ?thesis by blast
qed

theorem dead_feature_is_interpreted_witness:
  "\<exists>w' f. process_feature labelling_ai collect text_data_52 7 dead_row initial_world = Inr w' \<and>
     handled w' = [f] \<and> index f = 7 \<and> density f = 0 \<and> high_act_samples f = [] \<and>
     length (low_act_samples f) = 50 \<and> confidence f = 10 \<and> ai_state w' = 3"
proof -
  have h1: "\<forall>v\<in>set dead_row. v = 0" by (simp add: dead_row_def)
  have h2: "50 \<le> length dead_row" by (simp add: dead_row_def)
  have h3: "length dead_row \<le> length text_data_52"
    by (simp add: dead_row_def text_data_52_def)
  from dead_feature_is_interpreted [OF h1 h2 h3, where w = initial_world
      and ai = labelling_ai and handle_labelled_feature = collect and idx = 7]
  obtain low g' where
    l: "length low = 50" and z: "\<forall>s\<in>set low. act s = 0" and
    em: "\<And>lbl rsn attrs hp lp s' h'.
           try_block labelling_ai (ai_state initial_world) [] low =
             (Inr (lbl, rsn, attrs, PyNum hp, PyNum lp), s') \<Longrightarrow>
           collect (handler_state initial_world)
             \<lparr>index = 7, label = lbl, attributes = attrs, reasoning = rsn,
              confidence = \<bar>hp - lp\<bar>, density = 0,
              high_act_samples = [], low_act_samples = low\<rparr> = Inr h' \<Longrightarrow>
           process_feature labelling_ai collect text_data_52 7 dead_row initial_world =
             Inr (initial_world\<lparr>ai_state := s', rng_state := g', handler_state := h',
                    handled := handled initial_world @
                      [\<lparr>index = 7, label = lbl, attributes = attrs, reasoning = rsn,
                        confidence = \<bar>hp - lp\<bar>, density = 0,
                        high_act_samples = [], low_act_samples = low\<rparr>]\<rparr>)"
    by blast
  from l have ne: "low \<noteq> []" by auto
  with z have hz: "act (hd low) = 0" by simp
  have tb: "try_block labelling_ai (ai_state initial_world) [] low =
          (Inr (PyStr ''topic'', PyStr ''because'', PyList [PyStr ''short''], PyNum 0, PyNum 10),
           3)"
    using ne hz by (simp add: try_block_def labelling_ai_def subscript_def initial_world_def)
  have "process_feature labelling_ai collect text_data_52 7 dead_row initial_world =
          Inr (initial_world\<lparr>ai_state := 3, rng_state := g',
                 handler_state := handler_state initial_world @
                   [\<lparr>index = 7, label = PyStr ''topic'', attributes = PyList [PyStr ''short''],
                     reasoning = PyStr ''because'', confidence = \<bar>0 - 10\<bar>, density = 0,
                     high_act_samples = [], low_act_samples = low\<rparr>],
                 handled := handled initial_world @
                   [\<lparr>index = 7, label = PyStr ''topic'', attributes = PyList [PyStr ''short''],
                     reasoning = PyStr ''because'', confidence = \<bar>0 - 10\<bar>, density = 0,
                     high_act_samples = [], low_act_samples = low\<rparr>]\<rparr>)"
    by (rule em [OF tb]) (simp add: collect_def)
  then show ?thesis using l by (simp add: initial_world_def)
qed

subsection \<open>The high-evidence set\<close>

text \<open>
  C6. For a row without a negative activation, the high-evidence set has at most 50
  samples, none of them with activation 0, and is the first
  \<open>min 50 (count_nonzero feature)\<close> samples of the list sorted by descending
  activation, which is a rearrangement of all the samples of the row.
\<close>

theorem high_evidence_set:
  assumes "\<forall>v\<in>set feature. 0 \<le> v"
      and "feature_samples text_data 0 feature = Inr samples"
  shows "length (select_high (sort_reverse samples)) \<le> 50 \<and>
         (\<forall>s\<in>set (select_high (sort_reverse samples)). act s \<noteq> 0) \<and>
         select_high (sort_reverse samples) =
           take (min 50 (count_nonzero feature)) (sort_reverse samples) \<and>
         sorted_wrt (\<lambda>a b. act b \<le> act a) (sort_reverse samples) \<and>
         mset (sort_reverse samples) = mset samples \<and>
         map act samples = feature \<and>
         (\<forall>g high low g'. sample_evidence text_data feature g = Inr (high, low, g') \<longrightarrow>
            high = select_high (sort_reverse samples))"
proof -
  let ?sorted = "sort_reverse samples"
  have a: "map act samples = feature" by (rule feature_samples_acts [OF assms(2)])
  have d: "sorted_wrt (\<lambda>a b. act b \<le> act a) ?sorted" by (rule sort_reverse_descending)
  have m: "mset ?sorted = mset samples" by (rule sort_reverse_mset)
  have "set ?sorted = set samples" by (metis m set_mset_mset)
  moreover have "\<forall>x\<in>set samples. 0 \<le> act x" using a assms(1) by auto
  ultimately have nn: "\<forall>x\<in>set ?sorted. 0 \<le> act x" by simp
  have t: "select_high ?sorted = take (min 50 (count_nonzero feature)) ?sorted"
    unfolding select_high_def
    using filter_take_descending [OF d nn, of 50] count_nonzero_sorted [OF a] by simp
  have l: "length (select_high ?sorted) \<le> 50" using t by simp
  have z: "\<forall>s\<in>set (select_high ?sorted). act s \<noteq> 0" by (simp add: select_high_def)
  have e: "\<forall>g high low g'. sample_evidence text_data feature g = Inr (high, low, g') \<longrightarrow>
            high = select_high ?sorted"
    using assms(2) by (auto simp: sample_evidence_def Let_def split: sum.splits)
  from l z t d m a e show ?thesis by blast
qed

theorem high_evidence_set_witness:
  "select_high (sort_reverse (projr (feature_samples text_data_52 0 active_row))) =
     [\<lparr>text_of = ''sentence'', act = 3\<rparr>, \<lparr>text_of = ''sentence'', act = 1\<rparr>] \<and>
   select_high (sort_reverse (projr (feature_samples text_data_52 0 active_row))) =
     take (min 50 (count_nonzero active_row))
       (sort_reverse (projr (feature_samples text_data_52 0 active_row)))"
proof -
  let ?s = "feature_samples text_data_52 0 active_row"
  have h1: "\<forall>v\<in>set active_row. 0 \<le> v" by (simp add: active_row_def)
  have "\<not> isl ?s" by code_simp
  then have h2: "?s = Inr (projr ?s)" by (rule Inr_projr)
  have c: "select_high (sort_reverse (projr ?s)) =
     [\<lparr>text_of = ''sentence'', act = 3\<rparr>, \<lparr>text_of = ''sentence'', act = 1\<rparr>]"
    by code_simp
  from high_evidence_set [OF h1 h2] c show ?thesis by blast
qed

subsection \<open>The registry\<close>

lemma assign_column_props:
  assumes "assign_column reg i v = Inr reg'"
  shows "length reg' = length reg"
    and "f < length reg \<Longrightarrow> length (reg' ! f) = length (reg ! f)"
    and "f < length reg \<Longrightarrow> j \<noteq> i \<Longrightarrow> reg' ! f ! j = reg ! f ! j"
    and "f < length reg \<Longrightarrow> i < length (reg ! f) \<Longrightarrow> f < length v \<Longrightarrow> reg' ! f ! i = v ! f"
proof -
  consider (full) "length v = length reg"
      "reg' = map (\<lambda>(row, x). row[i := x]) (zip reg v)"
    | (broadcast) "length v \<noteq> length reg" "length v = 1" "reg' = map (\<lambda>row. row[i := hd v]) reg"
    using assms by (auto simp: assign_column_def split: if_splits)
  note c = this
  show "length reg' = length reg"
    using c by cases simp_all
  show "length (reg' ! f) = length (reg ! f)" if "f < length reg"
    using c that by cases simp_all
  show "reg' ! f ! j = reg ! f ! j" if "f < length reg" "j \<noteq> i"
    using c that by cases simp_all
  show "reg' ! f ! i = v ! f" if "f < length reg" "i < length (reg ! f)" "f < length v"
    using c that
  proof cases
    case full
    with that show ?thesis by simp
  next
    case broadcast
    with that have "f = 0" "v \<noteq> []" by auto
    with broadcast that show ?thesis by (simp add: hd_conv_nth)
  qed
qed

lemma assign_column_total:
  "length v = length reg \<Longrightarrow> \<exists>reg'. assign_column reg i v = Inr reg'"
  by (simp add: assign_column_def)

lemma fill_registry_props:
  assumes "fill_registry sae es i reg = Inr reg'"
  shows "length reg' = length reg \<and>
         (\<forall>f<length reg. length (reg' ! f) = length (reg ! f) \<and>
            (\<forall>j<i. reg' ! f ! j = reg ! f ! j) \<and>
            (\<forall>k<length es. i + k < length (reg ! f) \<longrightarrow>
               f < length (snd (forward sae (es ! k))) \<longrightarrow>
               reg' ! f ! (i + k) = snd (forward sae (es ! k)) ! f))"
  using assms
proof (induction es arbitrary: i reg)
  case Nil
  then show ?case by simp
next
  case (Cons e es)
  from Cons.prems obtain mid where
    a: "assign_column reg i (snd (forward sae e)) = Inr mid" and
    r: "fill_registry sae es (Suc i) mid = Inr reg'"
    by (auto split: sum.splits)
  note ih = Cons.IH [OF r]
  note ac = assign_column_props [OF a]
  show ?case
  proof (intro conjI allI impI)
    show "length reg' = length reg" using ih ac(1) by simp
  next
    fix f assume f: "f < length reg"
    then have fm: "f < length mid" using ac(1) by simp
    show "length (reg' ! f) = length (reg ! f)"
      using ih fm ac(2) [OF f] by simp
  next
    fix f j assume f: "f < length reg" and j: "j < i"
    then have fm: "f < length mid" using ac(1) by simp
    have "reg' ! f ! j = mid ! f ! j" using ih fm j by simp
    also have "\<dots> = reg ! f ! j" using ac(3) [OF f, of j] j by simp
    finally show "reg' ! f ! j = reg ! f ! j" .
  next
    fix f k
    assume f: "f < length reg" and k: "k < length (e # es)"
      and b: "i + k < length (reg ! f)"
      and c: "f < length (snd (forward sae ((e # es) ! k)))"
    then have fm: "f < length mid" using ac(1) by simp
    show "reg' ! f ! (i + k) = snd (forward sae ((e # es) ! k)) ! f"
    proof (cases k)
      case 0
      have "reg' ! f ! i = mid ! f ! i" using ih fm by simp
      also have "\<dots> = snd (forward sae e) ! f"
        using ac(4) [OF f] b c 0 by simp
      finally show ?thesis using 0 by simp
    next
      case (Suc k')
      have "k' < length es" using k Suc by simp
      moreover have "Suc i + k' < length (mid ! f)" using b Suc ac(2) [OF f] by simp
      moreover have "f < length (snd (forward sae (es ! k')))" using c Suc by simp
      ultimately have "reg' ! f ! (Suc i + k') = snd (forward sae (es ! k')) ! f"
        using ih fm by blast
      then show ?thesis using Suc by simp
    qed
  qed
qed

lemma fill_registry_total:
  assumes "\<forall>e\<in>set es. length (snd (forward sae e)) = length reg"
  shows "\<exists>reg'. fill_registry sae es i reg = Inr reg'"
  using assms
proof (induction es arbitrary: i reg)
  case Nil
  then show ?case by simp
next
  case (Cons e es)
  then have "length (snd (forward sae e)) = length reg" by simp
  from assign_column_total [OF this, of i] obtain mid where
    a: "assign_column reg i (snd (forward sae e)) = Inr mid" by blast
  have "length mid = length reg" by (rule assign_column_props(1) [OF a])
  with Cons.prems have "\<forall>x\<in>set es. length (snd (forward sae x)) = length mid" by simp
  from Cons.IH [OF this, of "Suc i"] a show ?case by simp
qed

lemma fill_registry_cong:
  assumes "\<forall>e\<in>set es. snd (forward sae' e) = snd (forward sae e)"
  shows "fill_registry sae' es i reg = fill_registry sae es i reg"
  using assms
  by (induction es arbitrary: i reg) (auto split: sum.splits)

lemma build_registry_shape:
  assumes "build_registry sae embeddings n = Inr reg"
  shows "0 \<le> n" and "length reg = nat n" and "\<forall>row\<in>set reg. length row = length embeddings"
proof -
  from assms have n: "0 \<le> n" and
    f: "fill_registry sae embeddings 0 (replicate (nat n) (replicate (length embeddings) 0)) = Inr reg"
    by (auto simp: build_registry_def np_zeros_def split: if_splits)
  note p = fill_registry_props [OF f]
  show "0 \<le> n" by (rule n)
  show "length reg = nat n" using p by simp
  show "\<forall>row\<in>set reg. length row = length embeddings"
  proof
    fix row assume "row \<in> set reg"
    then obtain k where "k < length reg" "row = reg ! k" by (auto simp: in_set_conv_nth)
    with p show "length row = length embeddings" by simp
  qed
qed

text \<open>
  C3. When the registry is built, it has \<open>n_feature_activations\<close> rows, and its entry at
  row \<open>f\<close> and column \<open>i\<close> is coordinate \<open>f\<close> of the sparse code of
  \<open>embeddings[i]\<close>, for every coordinate the code has. It is built whenever every code
  has \<open>n_feature_activations\<close> coordinates. The result is a function of the codes of the
  embeddings, in their order: two models with the same codes give the same registry.
\<close>

theorem registry_holds_the_codes:
  "(build_registry sae embeddings n = Inr reg \<longrightarrow>
      length reg = nat n \<and>
      (\<forall>f i. int f < n \<and> i < length embeddings \<and>
         f < length (snd (forward sae (embeddings ! i))) \<longrightarrow>
         reg ! f ! i = snd (forward sae (embeddings ! i)) ! f)) \<and>
   (0 \<le> n \<and> (\<forall>e\<in>set embeddings. length (snd (forward sae e)) = nat n) \<longrightarrow>
      (\<exists>r. build_registry sae embeddings n = Inr r)) \<and>
   ((\<forall>e\<in>set embeddings. snd (forward sae' e) = snd (forward sae e)) \<longrightarrow>
      build_registry sae' embeddings n = build_registry sae embeddings n)"
proof (intro conjI impI allI)
  assume b: "build_registry sae embeddings n = Inr reg"
  show "length reg = nat n" by (rule build_registry_shape(2) [OF b])
next
  fix f i
  assume b: "build_registry sae embeddings n = Inr reg"
    and h: "int f < n \<and> i < length embeddings \<and>
         f < length (snd (forward sae (embeddings ! i)))"
  from b have n: "0 \<le> n" and
    fr: "fill_registry sae embeddings 0 (replicate (nat n) (replicate (length embeddings) 0)) = Inr reg"
    by (auto simp: build_registry_def np_zeros_def split: if_splits)
  from h have "int f < n" by simp
  then have f: "f < nat n" by linarith
  from fill_registry_props [OF fr] f h
  have "reg ! f ! (0 + i) = snd (forward sae (embeddings ! i)) ! f" by simp
  then show "reg ! f ! i = snd (forward sae (embeddings ! i)) ! f" by simp
next
  assume a: "0 \<le> n \<and> (\<forall>e\<in>set embeddings. length (snd (forward sae e)) = nat n)"
  then have "\<forall>e\<in>set embeddings. length (snd (forward sae e)) =
               length (replicate (nat n) (replicate (length embeddings) (0::real)))"
    by simp
  from fill_registry_total [OF this, of 0] a
  show "\<exists>r. build_registry sae embeddings n = Inr r"
    by (simp add: build_registry_def np_zeros_def)
next
  assume "\<forall>e\<in>set embeddings. snd (forward sae' e) = snd (forward sae e)"
  then show "build_registry sae' embeddings n = build_registry sae embeddings n"
    by (simp add: build_registry_def fill_registry_cong split: sum.splits)
qed


theorem registry_holds_the_codes_witness:
  "[[1, 0, 0], [0, 0, 0 :: real]] ! 0 ! 0 =
     snd (forward two_feature_sae (small_embeddings ! 0)) ! 0 \<and>
   [[1, 0, 0], [0, 0, 0 :: real]] ! 1 ! 2 =
     snd (forward two_feature_sae (small_embeddings ! 2)) ! 1 \<and>
   (\<exists>r. build_registry two_feature_sae small_embeddings 2 = Inr r) \<and>
   build_registry \<lparr>forward = (\<lambda>x. ([], map (\<lambda>v. max v 0) (take 2 x)))\<rparr> small_embeddings 2 =
     build_registry two_feature_sae small_embeddings 2"
proof -
  note t = registry_holds_the_codes [where sae = two_feature_sae
      and embeddings = small_embeddings and n = 2 and reg = "[[1, 0, 0], [0, 0, 0]]"
      and sae' = "\<lparr>forward = (\<lambda>x. ([], map (\<lambda>v. max v 0) (take 2 x)))\<rparr>"]
  have b: "build_registry two_feature_sae small_embeddings 2 = Inr [[1, 0, 0], [0, 0, 0]]"
    by code_simp
  have i00: "int 0 < 2 \<and> 0 < length small_embeddings \<and>
             0 < length (snd (forward two_feature_sae (small_embeddings ! 0)))"
    by (simp add: small_embeddings_def two_feature_sae_def)
  have i12: "int 1 < 2 \<and> 2 < length small_embeddings \<and>
             1 < length (snd (forward two_feature_sae (small_embeddings ! 2)))"
    by (simp add: small_embeddings_def two_feature_sae_def)
  have l: "(0::int) \<le> 2 \<and>
           (\<forall>e\<in>set small_embeddings. length (snd (forward two_feature_sae e)) = nat 2)"
    by (simp add: small_embeddings_def two_feature_sae_def)
  have a: "\<forall>e\<in>set small_embeddings.
             snd (forward \<lparr>forward = (\<lambda>x. ([], map (\<lambda>v. max v 0) (take 2 x)))\<rparr> e) =
             snd (forward two_feature_sae e)"
    by (simp add: two_feature_sae_def)
  have c1: "[[1, 0, 0], [0, 0, 0 :: real]] ! 0 ! 0 =
     snd (forward two_feature_sae (small_embeddings ! 0)) ! 0"
    using t b i00 by blast
  have c2: "[[1, 0, 0], [0, 0, 0 :: real]] ! 1 ! 2 =
     snd (forward two_feature_sae (small_embeddings ! 2)) ! 1"
    using t b i12 by blast
  have c3: "\<exists>r. build_registry two_feature_sae small_embeddings 2 = Inr r"
    using t l by blast
  have c4: "build_registry \<lparr>forward = (\<lambda>x. ([], map (\<lambda>v. max v 0) (take 2 x)))\<rparr>
              small_embeddings 2 = build_registry two_feature_sae small_embeddings 2"
    using t a by blast
  show ?thesis by (intro conjI) (rule c1, rule c2, rule c3, rule c4)
qed

subsection \<open>Truncation of the registry\<close>

lemma process_features_handled:
  assumes "process_features ai handle_labelled_feature text_data idx rows w = Inr w'"
  shows "\<exists>new. handled w' = handled w @ new \<and>
           (\<forall>f\<in>set new. idx \<le> index f \<and> index f < idx + length rows)"
  using assms
proof (induction rows arbitrary: idx w)
  case Nil
  then show ?case by simp
next
  case (Cons row rows)
  from Cons.prems obtain mid where
    p: "process_feature ai handle_labelled_feature text_data idx row w = Inr mid" and
    r: "process_features ai handle_labelled_feature text_data (Suc idx) rows mid = Inr w'"
    by (auto split: sum.splits)
  from Cons.IH [OF r] obtain new where
    n: "handled w' = handled mid @ new"
       "\<forall>f\<in>set new. Suc idx \<le> index f \<and> index f < Suc idx + length rows"
    by blast
  from process_feature_handled [OF p] show ?case
  proof
    assume "handled mid = handled w"
    with n have "handled w' = handled w @ new \<and>
        (\<forall>f\<in>set new. idx \<le> index f \<and> index f < idx + length (row # rows))"
      by auto
    then show ?thesis by blast
  next
    assume "\<exists>f. handled mid = handled w @ [f] \<and> index f = idx"
    then obtain f where "handled mid = handled w @ [f]" "index f = idx" by blast
    with n have "handled w' = handled w @ (f # new) \<and>
        (\<forall>f\<in>set (f # new). idx \<le> index f \<and> index f < idx + length (row # rows))"
      by auto
    then show ?thesis by blast
  qed
qed

text \<open>
  C8. With \<open>max_features = m\<close> for a count \<open>m \<ge> 0\<close>, the rows that are processed are
  the first \<open>m\<close> rows of the registry (all of them when there are fewer), each at its
  own index, and every feature the run hands to the handler has an index below \<open>m\<close>.
\<close>

theorem max_features_truncates_by_index:
  assumes "0 \<le> m"
  shows "truncate_registry reg (Some m) = take (nat m) reg \<and>
         length (truncate_registry reg (Some m)) = min (nat m) (length reg) \<and>
         (\<forall>f<length (truncate_registry reg (Some m)).
            truncate_registry reg (Some m) ! f = reg ! f) \<and>
         (\<forall>w'. run_interp_pipeline ai sae embeddings text_data n handle_labelled_feature
                  (Some m) w = Inr w' \<longrightarrow>
            (\<exists>new. handled w' = handled w @ new \<and> (\<forall>f\<in>set new. int (index f) < m)))"
proof -
  have t: "\<And>r. truncate_registry r (Some m) = take (nat m) r"
    using assms by (simp add: truncate_registry_def slice_to_def)
  have e: "\<forall>w'. run_interp_pipeline ai sae embeddings text_data n handle_labelled_feature
                  (Some m) w = Inr w' \<longrightarrow>
            (\<exists>new. handled w' = handled w @ new \<and> (\<forall>f\<in>set new. int (index f) < m))"
  proof (intro allI impI)
    fix w'
    assume "run_interp_pipeline ai sae embeddings text_data n handle_labelled_feature
              (Some m) w = Inr w'"
    then obtain r where
      "process_features ai handle_labelled_feature text_data 0 (take (nat m) r) w = Inr w'"
      by (auto simp: run_interp_pipeline_def t split: sum.splits)
    from process_features_handled [OF this] obtain new where
      n: "handled w' = handled w @ new"
         "\<forall>f\<in>set new. index f < 0 + length (take (nat m) r)"
      by blast
    have "\<forall>f\<in>set new. int (index f) < m"
    proof
      fix f assume "f \<in> set new"
      with n have "index f < nat m" by simp
      then show "int (index f) < m" by linarith
    qed
    with n show "\<exists>new. handled w' = handled w @ new \<and> (\<forall>f\<in>set new. int (index f) < m)"
      by blast
  qed
  show ?thesis using t e by simp
qed

theorem max_features_truncates_by_index_witness:
  "truncate_registry [[1, 0], [0, 2], [3, 3]] (Some 2) = take (nat 2) [[1, 0], [0, 2], [3, 3]] \<and>
   (\<exists>new. handled (projr (run_interp_pipeline labelling_ai two_feature_sae mixed_embeddings
              text_data_52 2 collect (Some 1) initial_world)) = handled initial_world @ new \<and>
           (\<forall>f\<in>set new. int (index f) < 1)) \<and>
   map index (handled (projr (run_interp_pipeline labelling_ai two_feature_sae mixed_embeddings
              text_data_52 2 collect (Some 1) initial_world))) = [0] \<and>
   map index (handled (projr (run_interp_pipeline labelling_ai two_feature_sae mixed_embeddings
              text_data_52 2 collect None initial_world))) = [0, 1]"
proof -
  let ?r = "run_interp_pipeline labelling_ai two_feature_sae mixed_embeddings
              text_data_52 2 collect (Some 1) initial_world"
  have m2: "(0::int) \<le> 2" and m1: "(0::int) \<le> 1" by simp_all
  have "\<not> isl ?r" by code_simp
  then have h: "?r = Inr (projr ?r)" by (rule Inr_projr)
  have c1: "truncate_registry [[1, 0], [0, 2], [3, 3]] (Some 2) =
              take (nat 2) [[1, 0], [0, 2], [3, 3]]"
    using max_features_truncates_by_index [OF m2] by blast
  have c2: "\<exists>new. handled (projr ?r) = handled initial_world @ new \<and>
              (\<forall>f\<in>set new. int (index f) < 1)"
    using max_features_truncates_by_index [OF m1] h by blast
  have c3: "map index (handled (projr ?r)) = [0]" by code_simp
  have c4: "map index (handled (projr (run_interp_pipeline labelling_ai two_feature_sae
              mixed_embeddings text_data_52 2 collect None initial_world))) = [0, 1]"
    by code_simp
  show ?thesis by (intro conjI) (rule c1, rule c2, rule c3, rule c4)
qed

subsection \<open>A service that always fails\<close>

lemma sample_evidence_enough:
  assumes "50 \<le> length (filter (\<lambda>v. v = 0) feature)"
      and "length feature \<le> length text_data"
  shows "\<exists>high low g'. sample_evidence text_data feature g = Inr (high, low, g')"
proof -
  from assms(2) obtain samples where
    s: "feature_samples text_data 0 feature = Inr samples" and a: "map act samples = feature"
    using feature_samples_ok [of 0 feature text_data] by auto
  have "50 \<le> length (zero_pool (sort_reverse samples))"
    using zero_pool_length [OF a] assms(1) by simp
  from random_choice_enough [OF this, of g] obtain low g' where
    "random_choice (zero_pool (sort_reverse samples)) 50 g = Inr (low, g')"
    by blast
  with s show ?thesis by (simp add: sample_evidence_def)
qed

lemma process_features_all_skipped:
  assumes "\<forall>s high low. isl (fst (get_interpretation ai s high low))"
      and "\<forall>row\<in>set rows. 50 \<le> length (filter (\<lambda>v. v = 0) row) \<and>
             length row \<le> length text_data"
  shows "\<exists>w' lines.
           process_features ai handle_labelled_feature text_data idx rows w = Inr w' \<and>
           handled w' = handled w \<and> handler_state w' = handler_state w \<and>
           stdout w' = stdout w @ lines \<and> length lines = length rows \<and>
           (\<forall>l\<in>set lines. \<exists>e. l = ''Skipping feature due to error: '' @ exn_str e)"
  using assms(2)
proof (induction rows arbitrary: idx w)
  case Nil
  then show ?case by simp
next
  case (Cons row rows)
  then have "50 \<le> length (filter (\<lambda>v. v = 0) row)" "length row \<le> length text_data"
    by simp_all
  from sample_evidence_enough [OF this, of "rng_state w"] obtain high low g' where
    ev: "sample_evidence text_data row (rng_state w) = Inr (high, low, g')" by blast
  from assms(1) obtain e s1 where
    "get_interpretation ai (ai_state w) high low = (Inl e, s1)"
    by (metis isl_def prod.collapse)
  then have tb: "try_block ai (ai_state w) high low = (Inl e, s1)"
    by (rule try_block_interpretation_raises)
  let ?mid = "w\<lparr>ai_state := s1, rng_state := g',
                 stdout := stdout w @ [''Skipping feature due to error: '' @ exn_str e]\<rparr>"
  have p: "process_feature ai handle_labelled_feature text_data idx row w = Inr ?mid"
    by (rule process_feature_skips [OF ev tb])
  from Cons.prems have "\<forall>row\<in>set rows. 50 \<le> length (filter (\<lambda>v. v = 0) row) \<and>
             length row \<le> length text_data" by simp
  from Cons.IH [OF this, of "Suc idx" ?mid] obtain w' lines where
    r: "process_features ai handle_labelled_feature text_data (Suc idx) rows ?mid = Inr w'"
       "handled w' = handled ?mid" "handler_state w' = handler_state ?mid"
       "stdout w' = stdout ?mid @ lines" "length lines = length rows"
       "\<forall>l\<in>set lines. \<exists>e. l = ''Skipping feature due to error: '' @ exn_str e"
    by blast
  let ?lines = "(''Skipping feature due to error: '' @ exn_str e) # lines"
  have "process_features ai handle_labelled_feature text_data idx (row # rows) w = Inr w'"
    using p r(1) by simp
  moreover have "handled w' = handled w" "handler_state w' = handler_state w"
    using r(2,3) by simp_all
  moreover have "stdout w' = stdout w @ ?lines" using r(4) by simp
  moreover have "length ?lines = length (row # rows)" using r(5) by simp
  moreover have "\<forall>l\<in>set ?lines. \<exists>e. l = ''Skipping feature due to error: '' @ exn_str e"
    using r(6) by auto
  ultimately show ?case by blast
qed

lemma set_truncate_registry: "set (truncate_registry reg max_features) \<subseteq> set reg"
  by (auto simp: truncate_registry_def slice_to_def split: option.splits dest: in_set_takeD)

text \<open>
  C9, as the code has it. When every interpretation call raises and every processed row
  has at least 50 zero entries (with a text for each sample), the run completes, hands no
  feature to the handler, and prints one line \<open>Skipping feature due to error: ...\<close> for
  each feature processed. Nothing else is printed: the run reports no count of skipped
  features.
\<close>

theorem failing_service_skips_every_feature:
  assumes "\<forall>s high low. isl (fst (get_interpretation ai s high low))"
      and "build_registry sae embeddings n = Inr reg"
      and "\<forall>row\<in>set (truncate_registry reg max_features).
             50 \<le> length (filter (\<lambda>v. v = 0) row)"
      and "length embeddings \<le> length text_data"
  shows "\<exists>w' lines.
           run_interp_pipeline ai sae embeddings text_data n handle_labelled_feature
             max_features w = Inr w' \<and>
           handled w' = handled w \<and> handler_state w' = handler_state w \<and>
           stdout w' = stdout w @ lines \<and>
           length lines = length (truncate_registry reg max_features) \<and>
           (\<forall>l\<in>set lines. \<exists>e. l = ''Skipping feature due to error: '' @ exn_str e)"
proof -
  let ?rows = "truncate_registry reg max_features"
  have "\<forall>row\<in>set ?rows. length row \<le> length text_data"
    using build_registry_shape(3) [OF assms(2)] set_truncate_registry [of reg max_features]
      assms(4) by auto
  with assms(3) have "\<forall>row\<in>set ?rows. 50 \<le> length (filter (\<lambda>v. v = 0) row) \<and>
             length row \<le> length text_data" by simp
  from process_features_all_skipped [OF assms(1) this, of handle_labelled_feature 0 w]
  show ?thesis using assms(2) by (simp add: run_interp_pipeline_def)
qed

theorem failing_service_skips_every_feature_witness:
  "\<exists>w' lines.
     run_interp_pipeline failing_ai two_feature_sae quiet_embeddings text_data_52 2 collect
       None initial_world = Inr w' \<and>
     handled w' = handled initial_world \<and> handler_state w' = handler_state initial_world \<and>
     stdout w' = stdout initial_world @ lines \<and>
     length lines = length (truncate_registry (replicate 2 (replicate 50 0)) None) \<and>
     (\<forall>l\<in>set lines. \<exists>e. l = ''Skipping feature due to error: '' @ exn_str e)"
proof -
  have h1: "\<forall>s high low. isl (fst (get_interpretation failing_ai s high low))"
    by (simp add: failing_ai_def)
  have h2: "build_registry two_feature_sae quiet_embeddings 2 = Inr (replicate 2 (replicate 50 0))"
    by code_simp
  have h3: "\<forall>row\<in>set (truncate_registry (replicate 2 (replicate 50 0)) None).
              50 \<le> length (filter (\<lambda>v. v = 0) row)"
    by (simp add: truncate_registry_def)
  have h4: "length quiet_embeddings \<le> length text_data_52"
    by (simp add: quiet_embeddings_def text_data_52_def)
  show ?thesis by (rule failing_service_skips_every_feature [OF h1 h2 h3 h4])
qed

text \<open>
  C9 as stated fails. With a service that raises on every call, the run over the fifty
  quiet embeddings prints the two skip lines and nothing after them, so no count is
  reported at its end; and the run over the three-sentence corpus does not complete, it
  ends with the \<open>ValueError\<close> of the draw.
\<close>

theorem no_skip_count_is_reported:
  "map_sum id (\<lambda>w. (handled w, stdout w))
     (run_interp_pipeline failing_ai two_feature_sae quiet_embeddings text_data_52 2 collect
        None initial_world) =
   Inr ([], [''Skipping feature due to error: timeout'',
             ''Skipping feature due to error: timeout'']) \<and>
   map_sum id (\<lambda>w. (handled w, stdout w))
     (run_interp_pipeline failing_ai two_feature_sae small_embeddings small_text_data 2 collect
        None initial_world) =
   Inl (Raise ValueError
     ''Cannot take a larger sample than population when replace is False'')"
  by code_simp

end
